theory Spec2Isabelle
  imports Complex_Main
begin

section \<open>JavaScript values\<close>

text \<open>
  A JavaScript number is a finite value, one of the two infinities, or NaN. Finite values
  are kept exact (a rational): the model does not round to binary64 and does not tell
  \<open>-0\<close> from \<open>0\<close>. The build clock is a counter of whole seconds that starts at 0, so
  the clock itself is a \<open>nat\<close>.

  A JavaScript string is a \<open>string\<close>: a list of code units below 256.
\<close>

datatype jsnum = Fin rat | PInf | NInf | NaN

fun num_neg :: "jsnum \<Rightarrow> jsnum" where
  "num_neg (Fin x) = Fin (- x)"
| "num_neg PInf = NInf"
| "num_neg NInf = PInf"
| "num_neg NaN = NaN"

fun num_mul :: "jsnum \<Rightarrow> jsnum \<Rightarrow> jsnum" where
  "num_mul NaN _ = NaN"
| "num_mul _ NaN = NaN"
| "num_mul (Fin x) (Fin y) = Fin (x * y)"
| "num_mul (Fin x) PInf = (if x = 0 then NaN else if 0 < x then PInf else NInf)"
| "num_mul (Fin x) NInf = (if x = 0 then NaN else if 0 < x then NInf else PInf)"
| "num_mul PInf (Fin y) = (if y = 0 then NaN else if 0 < y then PInf else NInf)"
| "num_mul NInf (Fin y) = (if y = 0 then NaN else if 0 < y then NInf else PInf)"
| "num_mul PInf PInf = PInf"
| "num_mul PInf NInf = NInf"
| "num_mul NInf PInf = NInf"
| "num_mul NInf NInf = PInf"

fun num_add :: "jsnum \<Rightarrow> jsnum \<Rightarrow> jsnum" where
  "num_add NaN _ = NaN"
| "num_add _ NaN = NaN"
| "num_add (Fin x) (Fin y) = Fin (x + y)"
| "num_add (Fin x) PInf = PInf"
| "num_add (Fin x) NInf = NInf"
| "num_add PInf (Fin y) = PInf"
| "num_add NInf (Fin y) = NInf"
| "num_add PInf PInf = PInf"
| "num_add NInf NInf = NInf"
| "num_add PInf NInf = NaN"
| "num_add NInf PInf = NaN"

text \<open>\<open>a < b\<close>, \<open>a >= b\<close> and \<open>a === b\<close> on numbers: every comparison with NaN is false.\<close>

fun num_lt :: "jsnum \<Rightarrow> jsnum \<Rightarrow> bool" where
  "num_lt NaN _ = False"
| "num_lt _ NaN = False"
| "num_lt (Fin x) (Fin y) = (x < y)"
| "num_lt (Fin x) PInf = True"
| "num_lt (Fin x) NInf = False"
| "num_lt PInf _ = False"
| "num_lt NInf (Fin y) = True"
| "num_lt NInf PInf = True"
| "num_lt NInf NInf = False"

fun num_eq :: "jsnum \<Rightarrow> jsnum \<Rightarrow> bool" where
  "num_eq NaN _ = False"
| "num_eq _ NaN = False"
| "num_eq a b = (a = b)"

definition num_ge :: "jsnum \<Rightarrow> jsnum \<Rightarrow> bool" where
  "num_ge a b = (num_lt b a \<or> num_eq a b)"

definition natNum :: "nat \<Rightarrow> jsnum" where
  "natNum n = Fin (of_nat n)"

datatype jsval =
    Undefined
  | Null
  | Bool bool
  | Num jsnum
  | Str string
  | Arr "jsval list"
  | Obj "(string \<times> jsval) list"

datatype error = TypeError string | SyntaxError string | Error string

fun message :: "error \<Rightarrow> string" where
  "message (TypeError m) = m"
| "message (SyntaxError m) = m"
| "message (Error m) = m"

definition bindE :: "error + 'a \<Rightarrow> ('a \<Rightarrow> error + 'b) \<Rightarrow> error + 'b" where
  "bindE m f = (case m of Inl e \<Rightarrow> Inl e | Inr x \<Rightarrow> f x)"

text \<open>\<open>!v\<close> is true on the falsy values.\<close>

fun truthy :: "jsval \<Rightarrow> bool" where
  "truthy Undefined = False"
| "truthy Null = False"
| "truthy (Bool b) = b"
| "truthy (Num n) = (n \<noteq> Fin 0 \<and> n \<noteq> NaN)"
| "truthy (Str s) = (s \<noteq> [])"
| "truthy (Arr _) = True"
| "truthy (Obj _) = True"

fun typeof :: "jsval \<Rightarrow> string" where
  "typeof Undefined = ''undefined''"
| "typeof Null = ''object''"
| "typeof (Bool _) = ''boolean''"
| "typeof (Num _) = ''number''"
| "typeof (Str _) = ''string''"
| "typeof (Arr _) = ''object''"
| "typeof (Obj _) = ''object''"

fun isArray :: "jsval \<Rightarrow> bool" where
  "isArray (Arr _) = True"
| "isArray _ = False"

section \<open>Decimal text\<close>

definition isDigit :: "char \<Rightarrow> bool" where
  "isDigit c = (48 \<le> (of_char c :: nat) \<and> (of_char c :: nat) \<le> 57)"

definition digitVal :: "char \<Rightarrow> nat" where
  "digitVal c = of_char c - 48"

definition digitChar :: "nat \<Rightarrow> char" where
  "digitChar d = char_of (48 + d)"

definition digitsVal :: "string \<Rightarrow> nat" where
  "digitsVal s = foldl (\<lambda>acc c. acc * 10 + digitVal c) 0 s"

text \<open>\<open>String(n)\<close> for a whole number \<open>n \<ge> 0\<close>: its decimal digits, no leading zero.\<close>

fun showNat :: "nat \<Rightarrow> string" where
  "showNat n = (if n < 10 then [digitChar n] else showNat (n div 10) @ [digitChar (n mod 10)])"

declare showNat.simps [simp del]


text \<open>\<open>s.split(sep)\<close> for a separator of one character: one part more than separators.\<close>

fun splitOn :: "char \<Rightarrow> string \<Rightarrow> string list" where
  "splitOn c [] = [] # []"
| "splitOn c (x # xs) =
     (if x = c then [] # splitOn c xs
      else (case splitOn c xs of p # ps \<Rightarrow> (x # p) # ps | [] \<Rightarrow> [x] # []))"

section \<open>Number(string)\<close>

text \<open>
  The conversion of a string to a number: white space is trimmed at both ends; the empty
  string is 0; then a hexadecimal, octal or binary integer with its prefix, or an optionally
  signed decimal literal with optional fraction and exponent, or an optionally signed
  \<open>Infinity\<close>; everything else is NaN.
\<close>

definition isWhiteSpace :: "char \<Rightarrow> bool" where
  "isWhiteSpace c = ((of_char c :: nat) \<in> {9, 10, 11, 12, 13, 32, 160})"

definition trim :: "string \<Rightarrow> string" where
  "trim s = rev (dropWhile isWhiteSpace (rev (dropWhile isWhiteSpace s)))"

definition radixDigit :: "nat \<Rightarrow> char \<Rightarrow> nat option" where
  "radixDigit r c =
     (let k = (of_char c :: nat);
          v = (if 48 \<le> k \<and> k \<le> 57 then k - 48
               else if 97 \<le> k \<and> k \<le> 102 then k - 87
               else if 65 \<le> k \<and> k \<le> 70 then k - 55
               else 16)
      in if v < r then Some v else None)"

fun radixVal :: "nat \<Rightarrow> nat \<Rightarrow> string \<Rightarrow> nat option" where
  "radixVal r acc [] = Some acc"
| "radixVal r acc (c # cs) =
     (case radixDigit r c of None \<Rightarrow> None | Some v \<Rightarrow> radixVal r (acc * r + v) cs)"

definition radixLiteral :: "nat \<Rightarrow> string \<Rightarrow> jsnum" where
  "radixLiteral r ds =
     (if ds = [] then NaN
      else (case radixVal r 0 ds of None \<Rightarrow> NaN | Some v \<Rightarrow> Fin (of_nat v)))"

definition exponentPart :: "string \<Rightarrow> int option" where
  "exponentPart s =
     (case s of
        [] \<Rightarrow> Some 0
      | c # r \<Rightarrow>
          if c = CHR ''e'' \<or> c = CHR ''E'' then
            (let (neg, ds) =
                   (case r of
                      [] \<Rightarrow> (False, [])
                    | d # r' \<Rightarrow> if d = CHR ''-'' then (True, r')
                                else if d = CHR ''+'' then (False, r')
                                else (False, r))
             in if ds = [] \<or> \<not> list_all isDigit ds then None
                else Some (if neg then - int (digitsVal ds) else int (digitsVal ds)))
          else None)"

definition scale10 :: "rat \<Rightarrow> int \<Rightarrow> rat" where
  "scale10 x e = (if 0 \<le> e then x * 10 ^ nat e else x / 10 ^ nat (- e))"

definition unsignedDecimal :: "string \<Rightarrow> jsnum" where
  "unsignedDecimal s =
     (if s = ''Infinity'' then PInf
      else
        (let ip = takeWhile isDigit s;
             r1 = dropWhile isDigit s;
             (fp, r2) =
               (case r1 of
                  [] \<Rightarrow> ([], [])
                | c # r \<Rightarrow> if c = CHR ''.'' then (takeWhile isDigit r, dropWhile isDigit r)
                            else ([], r1))
         in if ip = [] \<and> fp = [] then NaN
            else (case exponentPart r2 of
                    None \<Rightarrow> NaN
                  | Some e \<Rightarrow>
                      Fin (scale10 (of_nat (digitsVal ip)
                                    + of_nat (digitsVal fp) / 10 ^ length fp) e))))"

definition Number :: "string \<Rightarrow> jsnum" where
  "Number str =
     (let s = trim str
      in case s of
           [] \<Rightarrow> Fin 0
         | c # r \<Rightarrow>
             if c = CHR ''-'' then num_neg (unsignedDecimal r)
             else if c = CHR ''+'' then unsignedDecimal r
             else (case r of
                     [] \<Rightarrow> unsignedDecimal s
                   | d # ds \<Rightarrow>
                       if c = CHR ''0'' \<and> (d = CHR ''x'' \<or> d = CHR ''X'') then radixLiteral 16 ds
                       else if c = CHR ''0'' \<and> (d = CHR ''o'' \<or> d = CHR ''O'') then radixLiteral 8 ds
                       else if c = CHR ''0'' \<and> (d = CHR ''b'' \<or> d = CHR ''B'') then radixLiteral 2 ds
                       else unsignedDecimal s))"

section \<open>Time text\<close>

text \<open>\<open>x || 0\<close> on a number: 0 and NaN are falsy.\<close>

definition orZero :: "jsnum \<Rightarrow> jsnum" where
  "orZero x = (if x = Fin 0 \<or> x = NaN then Fin 0 else x)"

text \<open>
  The body of \<open>parseTimeSafe\<close> on a string. The destructuring \<open>[m, s]\<close> reads the first two
  parts; a missing part is \<open>undefined\<close>, which makes the sum NaN.
\<close>

definition parseTimeText :: "string \<Rightarrow> jsnum" where
  "parseTimeText t =
     (if t = [] \<or> CHR '':'' \<notin> set t then Fin 0
      else (case map (\<lambda>n. orZero (Number n)) (splitOn CHR '':'' t) of
              m # s # _ \<Rightarrow> num_add (num_mul m (Fin 60)) s
            | _ \<Rightarrow> NaN))"

text \<open>
  \<open>parseTimeSafe(t)\<close> on any value. A falsy \<open>t\<close> gives 0. An array has \<open>includes\<close> but no
  \<open>split\<close>; the other truthy values have no \<open>includes\<close>.
\<close>

fun parseTimeSafe :: "jsval \<Rightarrow> error + jsnum" where
  "parseTimeSafe (Str t) = Inr (parseTimeText t)"
| "parseTimeSafe (Arr xs) =
     (if Str '':'' \<in> set xs then Inl (TypeError ''t.split is not a function'')
      else Inr (Fin 0))"
| "parseTimeSafe v =
     (if \<not> truthy v then Inr (Fin 0) else Inl (TypeError ''t.includes is not a function''))"


section \<open>Property reads\<close>

text \<open>
  \<open>v.k\<close>: reading a property of \<open>undefined\<close> or \<open>null\<close> throws. An object gives its own
  property (of a key that occurs twice in the JSON text, the last value) or \<open>undefined\<close>; an
  array and a string have \<open>length\<close> and their indices. Members inherited from the built-in
  prototypes are functions and are not values of this model; the code reads only
  \<open>name\<close>, \<open>race\<close>, \<open>steps\<close>, \<open>time\<close>, \<open>supply\<close> and \<open>action\<close>.
\<close>

definition indexed :: "'a list \<Rightarrow> string \<Rightarrow> 'a option" where
  "indexed xs k = map_of (zip (map showNat [0..<length xs]) xs) k"

fun getProp :: "jsval \<Rightarrow> string \<Rightarrow> error + jsval" where
  "getProp Undefined k = Inl (TypeError ''Cannot read properties of undefined'')"
| "getProp Null k = Inl (TypeError ''Cannot read properties of null'')"
| "getProp (Bool b) k = Inr Undefined"
| "getProp (Num n) k = Inr Undefined"
| "getProp (Str s) k =
     Inr (if k = ''length'' then Num (natNum (length s))
          else (case indexed s k of Some c \<Rightarrow> Str [c] | None \<Rightarrow> Undefined))"
| "getProp (Arr xs) k =
     Inr (if k = ''length'' then Num (natNum (length xs))
          else (case indexed xs k of Some v \<Rightarrow> v | None \<Rightarrow> Undefined))"
| "getProp (Obj kvs) k =
     Inr (case map_of (rev kvs) k of Some v \<Rightarrow> v | None \<Rightarrow> Undefined)"

section \<open>validateBuild\<close>

text \<open>The \<open>for (const step of json.steps)\<close> loop, followed by \<open>return true\<close>.\<close>

fun validateSteps :: "jsval list \<Rightarrow> error + bool" where
  "validateSteps [] = Inr True"
| "validateSteps (step # rest) =
     (if \<not> truthy step \<or> typeof step \<noteq> ''object'' then Inr False
      else bindE (getProp step ''time'') (\<lambda>time.
        if typeof time \<noteq> ''string'' then Inr False
        else bindE (getProp step ''supply'') (\<lambda>supply.
          if typeof supply \<noteq> ''number'' then Inr False
          else bindE (getProp step ''action'') (\<lambda>action.
            if typeof action \<noteq> ''string'' then Inr False
            else validateSteps rest))))"

definition validateBuild :: "jsval \<Rightarrow> error + bool" where
  "validateBuild json =
     (if \<not> truthy json \<or> typeof json \<noteq> ''object'' then Inr False
      else bindE (getProp json ''name'') (\<lambda>name.
        if typeof name \<noteq> ''string'' then Inr False
        else bindE (getProp json ''race'') (\<lambda>race.
          if typeof race \<noteq> ''string'' then Inr False
          else bindE (getProp json ''steps'') (\<lambda>steps.
            if \<not> isArray steps then Inr False
            else (case steps of Arr xs \<Rightarrow> validateSteps xs | _ \<Rightarrow> Inr False)))))"

section \<open>The schedule\<close>

text \<open>\<open>{ ...step, start, end }\<close>: the step as loaded, with its window.\<close>

record estep =
  step :: jsval
  start :: jsnum
  end' :: jsnum

text \<open>\<open>xs.map(f)\<close> with a callback that may throw: the first exception ends the map.\<close>

fun mapE :: "('a \<Rightarrow> error + 'b) \<Rightarrow> 'a list \<Rightarrow> error + 'b list" where
  "mapE f [] = Inr []"
| "mapE f (x # xs) = bindE (f x) (\<lambda>y. bindE (mapE f xs) (\<lambda>ys. Inr (y # ys)))"

text \<open>The callback of \<open>build.steps.map((step, i) => ...)\<close>.\<close>

definition enrichStep :: "jsval list \<Rightarrow> jsval \<times> nat \<Rightarrow> error + estep" where
  "enrichStep steps = (\<lambda>(step, i).
     bindE (bindE (getProp step ''time'') parseTimeSafe) (\<lambda>start.
       bindE (if int i < int (length steps) - 1
              then bindE (getProp (steps ! (i + 1)) ''time'') parseTimeSafe
              else Inr PInf) (\<lambda>end.
         Inr \<lparr>step = step, start = start, end' = end\<rparr>)))"

definition enrichedSteps :: "jsval \<Rightarrow> error + estep list" where
  "enrichedSteps build =
     bindE (getProp build ''steps'') (\<lambda>steps.
       case steps of
         Arr xs \<Rightarrow> mapE (enrichStep xs) (zip xs [0..<length xs])
       | _ \<Rightarrow> Inl (TypeError ''build.steps.map is not a function''))"

text \<open>\<open>xs.slice(first)\<close>: a negative index counts from the end, and the result is clamped to the list.\<close>

definition slice :: "int \<Rightarrow> 'a list \<Rightarrow> 'a list" where
  "slice first xs =
     (let len = int (length xs);
          k = (if first < 0 then max (len + first) 0 else min first len)
      in drop (nat k) xs)"

text \<open>
  The callback of the \<open>visibleSteps\<close> memo. It returns the display sequence; its side
  effect, the call of \<open>audioRef.current.play()\<close>, is the first component of the result.
  \<open>audio\<close> says that \<open>audioRef.current\<close> is set (the audio element is mounted).
\<close>

definition visibleSteps :: "bool \<Rightarrow> bool \<Rightarrow> estep list \<Rightarrow> jsnum \<Rightarrow> bool \<times> estep list" where
  "visibleSteps audio muted enriched seconds =
     (let done = filter (\<lambda>s. num_ge seconds (end' s)) enriched;
          lastDone = slice (- 2) done;
          remaining = filter (\<lambda>s. num_lt seconds (end' s)) enriched;
          play = (done \<noteq> [] \<and> \<not> muted \<and> audio \<and> num_eq seconds (end' (last done)))
      in (play, lastDone @ remaining))"

section \<open>The component state\<close>

record app_state =
  seconds :: nat
  running :: bool
  linkInput :: string
  loadingLink :: bool
  selectedBuild :: string
  build :: jsval
  muted :: bool
  errorMessage :: string
  successMessage :: string

definition DEFAULT_BUILD :: jsval where
  "DEFAULT_BUILD = Obj
     [(''name'', Str ''Sample Terran Macro Opener''),
      (''race'', Str ''Terran''),
      (''steps'', Arr
        [Obj [(''supply'', Num (Fin 14)), (''time'', Str ''0:02''), (''action'', Str ''Supply Depot'')],
         Obj [(''supply'', Num (Fin 16)), (''time'', Str ''0:06''), (''action'', Str ''Barracks'')],
         Obj [(''supply'', Num (Fin 19)), (''time'', Str ''0:08''), (''action'', Str ''Refinery'')],
         Obj [(''supply'', Num (Fin 19)), (''time'', Str ''0:12''), (''action'', Str ''Orbital Command'')],
         Obj [(''supply'', Num (Fin 20)), (''time'', Str ''0:015''),
              (''action'', Str ''Command Center (Expand)'')]])]"

text \<open>The first state: \<open>saved\<close> is the parsed cache entry, when there is one.\<close>

definition initialState :: "jsval option \<Rightarrow> app_state" where
  "initialState saved =
     \<lparr>seconds = 0, running = False, linkInput = [], loadingLink = False, selectedBuild = [],
      build = (case saved of Some b \<Rightarrow> b | None \<Rightarrow> DEFAULT_BUILD),
      muted = False, errorMessage = [], successMessage = []\<rparr>"

text \<open>\<open>err.message || fallback\<close>.\<close>

definition messageOr :: "error \<Rightarrow> string \<Rightarrow> string" where
  "messageOr err fallback = (if message err = [] then fallback else message err)"

section \<open>Loading a document\<close>

text \<open>
  What the network gave: \<open>await fetch(url)\<close> rejects with an error or gives a response, whose
  \<open>ok\<close> flag is read and whose \<open>json()\<close> rejects with an error or gives the parsed body.
\<close>

record response =
  ok :: bool
  json :: "error + jsval"

definition loadLocalBuild :: "string \<Rightarrow> error + response \<Rightarrow> app_state \<Rightarrow> app_state" where
  "loadLocalBuild buildId fetched st =
     (let st1 = st\<lparr>loadingLink := True, errorMessage := [], successMessage := []\<rparr>;
          tried =
            bindE fetched (\<lambda>res.
              if \<not> ok res then Inl (Error ''Build not found'')
              else bindE (json res) (\<lambda>j.
                bindE (validateBuild j) (\<lambda>valid.
                  if \<not> valid then Inl (Error ''Invalid build format'') else Inr j)));
          st2 =
            (case tried of
               Inr j \<Rightarrow> st1\<lparr>build := j, seconds := 0, successMessage := ''Build Loaded'',
                             running := False, selectedBuild := buildId\<rparr>
             | Inl err \<Rightarrow> st1\<lparr>errorMessage := messageOr err ''Build not available locally.''\<rparr>)
      in st2\<lparr>loadingLink := False\<rparr>)"

definition loadFromLink :: "error + response \<Rightarrow> app_state \<Rightarrow> app_state" where
  "loadFromLink fetched st =
     (let st1 = st\<lparr>loadingLink := True, errorMessage := [], successMessage := []\<rparr>;
          tried =
            bindE fetched (\<lambda>res.
              if \<not> ok res then Inl (Error ''Fetch failed'')
              else bindE (json res) (\<lambda>j.
                bindE (validateBuild j) (\<lambda>valid.
                  if \<not> valid then Inl (Error ''Invalid build format'') else Inr j)));
          st2 =
            (case tried of
               Inr j \<Rightarrow> st1\<lparr>build := j, seconds := 0, successMessage := ''Build Loaded'',
                             running := False, linkInput := []\<rparr>
             | Inl err \<Rightarrow>
                 st1\<lparr>errorMessage := messageOr err ''Unable to load build JSON from link.''\<rparr>)
      in st2\<lparr>loadingLink := False\<rparr>)"

text \<open>A dropped or chosen file: its name, and what \<open>await file.text()\<close> gave.\<close>

record jsfile =
  fname :: string
  contents :: "error + string"

definition toLowerCase :: "string \<Rightarrow> string" where
  "toLowerCase s =
     map (\<lambda>c. let k = (of_char c :: nat)
               in if (65 \<le> k \<and> k \<le> 90) \<or> (192 \<le> k \<and> k \<le> 222 \<and> k \<noteq> 215)
                  then char_of (k + 32) else c) s"

definition endsWith :: "string \<Rightarrow> string \<Rightarrow> bool" where
  "endsWith s suffix = (length suffix \<le> length s \<and> drop (length s - length suffix) s = suffix)"

text \<open>\<open>parse\<close> is \<open>JSON.parse\<close>: it throws or gives a value.\<close>

definition loadFromFile ::
    "(string \<Rightarrow> error + jsval) \<Rightarrow> jsfile option \<Rightarrow> app_state \<Rightarrow> app_state" where
  "loadFromFile parse given st =
     (let st1 = st\<lparr>errorMessage := [], successMessage := []\<rparr>;
          tried =
            (case given of
               None \<Rightarrow> Inl (Error ''No file provided'')
             | Some f \<Rightarrow>
                 if \<not> endsWith (toLowerCase (fname f)) ''.json''
                 then Inl (Error ''Please drop a valid .json file'')
                 else bindE (contents f) (\<lambda>txt.
                   bindE (parse txt) (\<lambda>j.
                     bindE (validateBuild j) (\<lambda>valid.
                       if \<not> valid then Inl (Error ''Invalid build JSON schema'') else Inr j))))
      in case tried of
           Inr j \<Rightarrow> st1\<lparr>build := j, successMessage := ''Build Loaded'', seconds := 0,
                         running := False\<rparr>
         | Inl err \<Rightarrow> st1\<lparr>errorMessage := messageOr err ''Invalid JSON file''\<rparr>)"

section \<open>Clock and sound\<close>

text \<open>
  The buttons and the one-second interval. The interval exists only while \<open>running\<close>, so a
  tick on a stopped clock does not happen.
\<close>

datatype event = Start | Pause | Reset | ToggleMute | Tick

fun handle :: "event \<Rightarrow> app_state \<Rightarrow> app_state" where
  "handle Start st = st\<lparr>running := True\<rparr>"
| "handle Pause st = st\<lparr>running := False\<rparr>"
| "handle Reset st = st\<lparr>running := False, seconds := 0\<rparr>"
| "handle ToggleMute st = st\<lparr>muted := \<not> muted st\<rparr>"
| "handle Tick st = (if running st then st\<lparr>seconds := seconds st + 1\<rparr> else st)"

text \<open>
  Whether evaluating the \<open>visibleSteps\<close> memo in a state plays the sound, with the audio
  element mounted.
\<close>

definition plays :: "app_state \<Rightarrow> bool" where
  "plays st =
     (case enrichedSteps (build st) of
        Inl _ \<Rightarrow> False
      | Inr enriched \<Rightarrow> fst (visibleSteps True (muted st) enriched (natNum (seconds st))))"

text \<open>
  A run of events. After each event the component renders again, and the memo is evaluated
  again when one of its dependencies \<open>seconds\<close>, \<open>muted\<close> has changed (the events leave
  \<open>build\<close> alone). The result lists the clock values at which the sound played.
\<close>

fun run :: "event list \<Rightarrow> app_state \<Rightarrow> nat list" where
  "run [] st = []"
| "run (e # es) st =
     (let st' = handle e st
      in (if (seconds st' \<noteq> seconds st \<or> muted st' \<noteq> muted st) \<and> plays st'
          then [seconds st'] else []) @ run es st')"

section \<open>The specification's reading\<close>

text \<open>
  The time parser as the specification words it: split once on the first separator, the
  text before it is the minutes and all the text after it is the seconds.
\<close>

definition parseTimeOnce :: "string \<Rightarrow> jsnum" where
  "parseTimeOnce t =
     (if t = [] \<or> CHR '':'' \<notin> set t then Fin 0
      else num_add
             (num_mul (orZero (Number (takeWhile (\<lambda>c. c \<noteq> CHR '':'') t))) (Fin 60))
             (orZero (Number (tl (dropWhile (\<lambda>c. c \<noteq> CHR '':'') t)))))"

text \<open>The shape of a build document as the specification words it.\<close>

definition field :: "jsval \<Rightarrow> string \<Rightarrow> jsval" where
  "field v k =
     (case v of
        Obj kvs \<Rightarrow> (case map_of (rev kvs) k of Some x \<Rightarrow> x | None \<Rightarrow> Undefined)
      | _ \<Rightarrow> Undefined)"

fun isText :: "jsval \<Rightarrow> bool" where
  "isText (Str _) = True"
| "isText _ = False"

fun isNumeric :: "jsval \<Rightarrow> bool" where
  "isNumeric (Num _) = True"
| "isNumeric _ = False"

fun isObject :: "jsval \<Rightarrow> bool" where
  "isObject (Obj _) = True"
| "isObject (Arr _) = True"
| "isObject _ = False"

definition isBuildStep :: "jsval \<Rightarrow> bool" where
  "isBuildStep v =
     (isObject v \<and> isText (field v ''time'') \<and> isNumeric (field v ''supply'')
      \<and> isText (field v ''action''))"

definition isBuildDocument :: "jsval \<Rightarrow> bool" where
  "isBuildDocument v =
     (isObject v \<and> isText (field v ''name'') \<and> isText (field v ''race'')
      \<and> (case field v ''steps'' of Arr xs \<Rightarrow> list_all isBuildStep xs | _ \<Rightarrow> False))"

text \<open>The index of the first step that is not a build step, when the steps are a list.\<close>

fun firstOffending :: "jsval list \<Rightarrow> nat option" where
  "firstOffending [] = None"
| "firstOffending (x # xs) =
     (if isBuildStep x then map_option Suc (firstOffending xs) else Some 0)"

text \<open>The last two elements of a list, fewer if there are fewer.\<close>

definition lastTwo :: "'a list \<Rightarrow> 'a list" where
  "lastTwo xs = rev (take 2 (rev xs))"

text \<open>A step is done when the clock has reached its end.\<close>

definition isDone :: "jsnum \<Rightarrow> estep \<Rightarrow> bool" where
  "isDone t s = num_ge t (end' s)"

text \<open>
  A load attempt fails when the fetch is rejected, the response is not ok, the body is not
  JSON, or the value is not accepted by \<open>validateBuild\<close>; for a file, also when there is
  no file, its name does not end in \<open>.json\<close>, or it cannot be read.
\<close>

definition fetchFails :: "error + response \<Rightarrow> bool" where
  "fetchFails fetched =
     (case fetched of
        Inl _ \<Rightarrow> True
      | Inr res \<Rightarrow>
          \<not> ok res \<or> (case json res of Inl _ \<Rightarrow> True | Inr j \<Rightarrow> validateBuild j \<noteq> Inr True))"

definition fileFails :: "(string \<Rightarrow> error + jsval) \<Rightarrow> jsfile option \<Rightarrow> bool" where
  "fileFails parse given =
     (case given of
        None \<Rightarrow> True
      | Some f \<Rightarrow>
          \<not> endsWith (toLowerCase (fname f)) ''.json''
          \<or> (case contents f of
                Inl _ \<Rightarrow> True
              | Inr txt \<Rightarrow> (case parse txt of Inl _ \<Rightarrow> True | Inr j \<Rightarrow> validateBuild j \<noteq> Inr True)))"

text \<open>The document, the clock and the running flag are as before, and a message is shown.\<close>

definition keptWithError :: "app_state \<Rightarrow> app_state \<Rightarrow> bool" where
  "keptWithError st st' =
     (build st' = build st \<and> seconds st' = seconds st \<and> running st' = running st
      \<and> errorMessage st' \<noteq> [])"

text \<open>The ends of the steps never decrease along the list.\<close>

definition endsAscend :: "estep list \<Rightarrow> bool" where
  "endsAscend es = sorted_wrt (\<lambda>a b. num_ge b a) (map end' es)"

section \<open>Decimal text is read back\<close>

lemma isDigit_digitChar: "d < 10 \<Longrightarrow> isDigit (digitChar d)"
  by (simp add: isDigit_def digitChar_def)


lemma showNat_digits: "list_all isDigit (showNat n)"
proof (induction n rule: showNat.induct)
  case (1 n)
  show ?case
  proof (cases "n < 10")
    case True
    then show ?thesis by (subst showNat.simps) (simp add: isDigit_digitChar)
  next
    case False
    then show ?thesis using 1 by (subst showNat.simps) (simp add: isDigit_digitChar)
  qed
qed










lemma splitOn_parts:
  "splitOn c t = takeWhile (\<lambda>x. x \<noteq> c) t #
     (if c \<in> set t then splitOn c (tl (dropWhile (\<lambda>x. x \<noteq> c) t)) else [])"
  by (induction t) auto








section \<open>parseTimeSafe\<close>

text \<open>
  C9. \<open>parseTimeSafe("0:38")\<close> is 38, \<open>parseTimeSafe("1:05")\<close> is 65, the empty string and
  \<open>"abc"\<close> (no separator) give 0, and \<open>"2:"\<close> gives 120: the missing seconds count as 0.
\<close>

theorem parseTimeSafe_examples:
  "parseTimeSafe (Str ''0:38'') = Inr (Fin 38) \<and>
   parseTimeSafe (Str ''1:05'') = Inr (Fin 65) \<and>
   parseTimeSafe (Str '''') = Inr (Fin 0) \<and>
   parseTimeSafe (Str ''abc'') = Inr (Fin 0) \<and>
   parseTimeSafe (Str ''2:'') = Inr (Fin 120)"
  by code_simp

theorem parseTimeSafe_examples_witness:
  "parseTimeSafe (Str ''1:05'') = Inr (Fin 65) \<and> parseTimeSafe (Str ''2:'') = Inr (Fin 120)"
  using parseTimeSafe_examples by simp



text \<open>
  C4, as the code has it. For every string \<open>t\<close>, \<open>parseTimeSafe\<close> gives 0 when \<open>t\<close> is empty
  or has no \<open>:\<close>. Otherwise it splits \<open>t\<close> at every separator and reads the first two parts:
  the minutes are the text before the first separator, the seconds are the text between
  the first separator and the second one (or the end), and whatever follows a second
  separator is ignored. Each part is made a number on its own, a part that is not numeric
  counts as 0, and the result is \<open>minutes * 60 + seconds\<close>.
\<close>

theorem parseTimeSafe_first_two_parts:
  "parseTimeSafe (Str t) =
     Inr (if t = [] \<or> CHR '':'' \<notin> set t then Fin 0
          else num_add
                 (num_mul (orZero (Number (takeWhile (\<lambda>c. c \<noteq> CHR '':'') t))) (Fin 60))
                 (orZero (Number (takeWhile (\<lambda>c. c \<noteq> CHR '':'')
                                    (tl (dropWhile (\<lambda>c. c \<noteq> CHR '':'') t))))))"
proof (cases "t = [] \<or> CHR '':'' \<notin> set t")
  case True
  then show ?thesis by (auto simp: parseTimeText_def)
next
  case False
  let ?rest = "tl (dropWhile (\<lambda>c. c \<noteq> CHR '':'') t)"
  have "splitOn CHR '':'' t = takeWhile (\<lambda>c. c \<noteq> CHR '':'') t # splitOn CHR '':'' ?rest"
    using False by (subst splitOn_parts) simp
  moreover have
    "splitOn CHR '':'' ?rest = takeWhile (\<lambda>c. c \<noteq> CHR '':'') ?rest #
       (if CHR '':'' \<in> set ?rest
        then splitOn CHR '':'' (tl (dropWhile (\<lambda>c. c \<noteq> CHR '':'') ?rest)) else [])"
    by (rule splitOn_parts)
  ultimately show ?thesis using False by (simp add: parseTimeText_def)
qed

theorem parseTimeSafe_first_two_parts_witness:
  "parseTimeSafe (Str ''3:07:59'') = Inr (Fin 187)"
proof -
  have "(if ''3:07:59'' = [] \<or> CHR '':'' \<notin> set ''3:07:59'' then Fin 0
         else num_add
                (num_mul (orZero (Number (takeWhile (\<lambda>c. c \<noteq> CHR '':'') ''3:07:59''))) (Fin 60))
                (orZero (Number (takeWhile (\<lambda>c. c \<noteq> CHR '':'')
                                   (tl (dropWhile (\<lambda>c. c \<noteq> CHR '':'') ''3:07:59'')))))) = Fin 187"
    by code_simp
  then show ?thesis by (simp only: parseTimeSafe_first_two_parts)
qed

text \<open>
  C4, as the specification words it, fails: on \<open>"1:2:3"\<close> the code reads 1 minute and 2
  seconds, 62, where one split at the first separator leaves the seconds \<open>"2:3"\<close>, not a
  number, and gives 60.
\<close>

theorem parseTimeSafe_splits_once_counterexample:
  "parseTimeSafe (Str ''1:2:3'') = Inr (Fin 62) \<and> parseTimeOnce ''1:2:3'' = Fin 60"
  by code_simp

section \<open>validateBuild\<close>

lemma indexed_not_digits: "\<not> list_all isDigit k \<Longrightarrow> indexed xs k = None"
proof -
  assume a: "\<not> list_all isDigit k"
  have "k \<notin> set (map showNat [0..<length xs])"
  proof
    assume "k \<in> set (map showNat [0..<length xs])"
    then obtain i where "k = showNat i" by auto
    then show False using a showNat_digits by simp
  qed
  then show ?thesis unfolding indexed_def
    by (simp add: map_of_zip_is_None)
qed

lemma typeof_string: "(typeof v = ''string'') = isText v"
  by (cases v) simp_all

lemma typeof_number: "(typeof v = ''number'') = isNumeric v"
  by (cases v) simp_all

lemma keys_not_digits:
  "\<not> list_all isDigit ''time''" "\<not> list_all isDigit ''supply''" "\<not> list_all isDigit ''action''"
  "\<not> list_all isDigit ''name''" "\<not> list_all isDigit ''race''" "\<not> list_all isDigit ''steps''"
  by (simp_all add: isDigit_def)

lemmas indexed_keys =
  keys_not_digits [THEN indexed_not_digits]

lemma validateSteps_Cons:
  "validateSteps (x # xs) = (if isBuildStep x then validateSteps xs else Inr False)"
proof (cases x)
  case (Obj kvs)
  then show ?thesis
    by (simp add: bindE_def isBuildStep_def field_def typeof_string typeof_number)
next
  case (Arr ys)
  then show ?thesis
    by (simp add: bindE_def isBuildStep_def field_def indexed_keys)
qed (simp_all add: isBuildStep_def)

lemma validateSteps_spec: "validateSteps xs = Inr (list_all isBuildStep xs)"
  by (induction xs) (simp_all add: validateSteps_Cons del: validateSteps.simps(2))

lemma validateBuild_spec: "validateBuild v = Inr (isBuildDocument v)"
proof (cases v)
  case (Obj kvs)
  show ?thesis
  proof (cases "field v ''steps''")
    case (Arr xs)
    then show ?thesis using Obj
      by (simp add: validateBuild_def bindE_def isBuildDocument_def field_def typeof_string
          validateSteps_spec)
  qed (use Obj in \<open>simp_all add: validateBuild_def bindE_def isBuildDocument_def field_def
          typeof_string\<close>)
next
  case (Arr ys)
  then show ?thesis
    by (simp add: validateBuild_def bindE_def isBuildDocument_def field_def indexed_keys)
qed (simp_all add: validateBuild_def isBuildDocument_def)

lemma field_extra_key:
  "k \<noteq> k' \<Longrightarrow> field (Obj (a @ (k, v) # b)) k' = field (Obj (a @ b)) k'"
  by (simp add: field_def map_add_def split: option.splits)

lemma isBuildDocument_extra_key:
  "k \<notin> {''name'', ''race'', ''steps''} \<Longrightarrow>
     isBuildDocument (Obj (a @ (k, v) # b)) = isBuildDocument (Obj (a @ b))"
  by (simp add: isBuildDocument_def field_extra_key)

lemma isBuildStep_extra_key:
  "k \<notin> {''time'', ''supply'', ''action''} \<Longrightarrow>
     isBuildStep (Obj (a @ (k, v) # b)) = isBuildStep (Obj (a @ b))"
  by (simp add: isBuildStep_def field_extra_key)

lemma steps_read:
  assumes "getProp raw ''steps'' = Inr (Arr xs)"
  shows "field raw ''steps'' = Arr xs"
proof (cases raw)
  case (Obj kvs)
  then show ?thesis using assms by (simp add: field_def)
next
  case (Arr ys)
  then show ?thesis using assms by (simp add: indexed_keys)
next
  case (Str s)
  then show ?thesis using assms by (simp add: indexed_keys)
qed (use assms in simp_all)

lemma firstOffending_Some: "firstOffending xs = Some i \<Longrightarrow> \<not> list_all isBuildStep xs"
  by (induction xs arbitrary: i) (auto split: if_splits)

lemma offending_rejected:
  assumes "getProp raw ''steps'' = Inr (Arr xs)" and "firstOffending xs = Some i"
  shows "validateBuild raw = Inr False"
  using steps_read[OF assms(1)] firstOffending_Some[OF assms(2)]
  by (simp add: validateBuild_spec isBuildDocument_def)

text \<open>
  C2. \<open>validateBuild\<close> returns, and returns true, exactly on a build document: a non-null
  object whose \<open>name\<close> and \<open>race\<close> are strings and whose \<open>steps\<close> is an array of non-null
  objects, each with a string \<open>time\<close>, a numeric \<open>supply\<close> and a string \<open>action\<close>. The checks
  run in that order and stop at the first one that fails, so no property is ever read from
  \<open>null\<close> or \<open>undefined\<close>: the function never throws. A key other than those three in the
  document, or other than those three in a step, does not change the result.
\<close>

theorem validateBuild_accepts_build_documents:
  "validateBuild raw = Inr (isBuildDocument raw)
   \<and> (k \<notin> {''name'', ''race'', ''steps''} \<longrightarrow>
        validateBuild (Obj (a @ (k, v) # b)) = validateBuild (Obj (a @ b)))
   \<and> (k \<notin> {''time'', ''supply'', ''action''} \<longrightarrow>
        validateSteps (xs @ Obj (a @ (k, v) # b) # ys) = validateSteps (xs @ Obj (a @ b) # ys))"
  by (simp add: validateBuild_spec validateSteps_spec isBuildDocument_extra_key
      isBuildStep_extra_key del: validateSteps.simps)

theorem validateBuild_accepts_build_documents_witness:
  "validateBuild DEFAULT_BUILD = Inr True
   \<and> validateBuild (Obj ([(''name'', Str ''Opener''), (''race'', Str ''Zerg'')]
                          @ (''notes'', Null) # [(''steps'', Arr [])])) = Inr True
   \<and> validateSteps ([] @ Obj ([(''time'', Str ''0:18''), (''supply'', Num (Fin 14))]
                               @ (''notes'', Null) # [(''action'', Str ''Pool'')]) # []) = Inr True"
proof -
  have n: "''notes'' \<notin> {''name'', ''race'', ''steps''}" "''notes'' \<notin> {''time'', ''supply'', ''action''}"
    by simp_all
  have d: "isBuildDocument DEFAULT_BUILD" by code_simp
  have e: "validateBuild (Obj ([(''name'', Str ''Opener''), (''race'', Str ''Zerg'')]
                               @ [(''steps'', Arr [])])) = Inr True"
    by code_simp
  have s: "validateSteps ([] @ Obj ([(''time'', Str ''0:18''), (''supply'', Num (Fin 14))]
                                    @ [(''action'', Str ''Pool'')]) # []) = Inr True"
    by code_simp
  have 1: "validateBuild DEFAULT_BUILD = Inr True"
    using validateBuild_accepts_build_documents[of DEFAULT_BUILD] d by simp
  have 2: "validateBuild (Obj ([(''name'', Str ''Opener''), (''race'', Str ''Zerg'')]
                          @ (''notes'', Null) # [(''steps'', Arr [])])) = Inr True"
    using validateBuild_accepts_build_documents[of DEFAULT_BUILD "''notes''"
        "[(''name'', Str ''Opener''), (''race'', Str ''Zerg'')]" Null "[(''steps'', Arr [])]"] n(1) e
    by (simp only: simp_thms)
  have 3: "validateSteps ([] @ Obj ([(''time'', Str ''0:18''), (''supply'', Num (Fin 14))]
                               @ (''notes'', Null) # [(''action'', Str ''Pool'')]) # []) = Inr True"
    using validateBuild_accepts_build_documents[of DEFAULT_BUILD "''notes''"
        "[(''time'', Str ''0:18''), (''supply'', Num (Fin 14))]" Null "[(''action'', Str ''Pool'')]"
        "[]" "[]"] n(2) s
    by (simp only: simp_thms)
  show ?thesis using 1 2 3 by (simp only: simp_thms)
qed

text \<open>
  C8, as the code has it. For every input whose \<open>steps\<close> array holds a step without a
  string \<open>time\<close>, a numeric \<open>supply\<close> or a string \<open>action\<close>, \<open>validateBuild\<close> returns false, and
  the loaders surface their fixed message, \<open>Invalid build format\<close> or
  \<open>Invalid build JSON schema\<close>. The failure is this boolean and this message; it names no
  step.
\<close>

theorem validateBuild_offending_step_rejected:
  assumes "getProp raw ''steps'' = Inr (Arr xs)" and "firstOffending xs = Some i"
  shows "validateBuild raw = Inr False
     \<and> errorMessage (loadLocalBuild b (Inr \<lparr>ok = True, json = Inr raw\<rparr>) st)
         = ''Invalid build format''
     \<and> errorMessage (loadFromLink (Inr \<lparr>ok = True, json = Inr raw\<rparr>) st)
         = ''Invalid build format''
     \<and> (endsWith (toLowerCase (fname f)) ''.json'' \<and> contents f = Inr txt \<and> parse txt = Inr raw
          \<longrightarrow> errorMessage (loadFromFile parse (Some f) st) = ''Invalid build JSON schema'')"
proof -
  have r: "validateBuild raw = Inr False" by (rule offending_rejected[OF assms])
  have 1: "errorMessage (loadLocalBuild b (Inr \<lparr>ok = True, json = Inr raw\<rparr>) st)
         = ''Invalid build format''"
    by (simp add: loadLocalBuild_def bindE_def r messageOr_def)
  have 2: "errorMessage (loadFromLink (Inr \<lparr>ok = True, json = Inr raw\<rparr>) st)
         = ''Invalid build format''"
    by (simp add: loadFromLink_def bindE_def r messageOr_def)
  have 3: "endsWith (toLowerCase (fname f)) ''.json'' \<and> contents f = Inr txt \<and> parse txt = Inr raw
          \<longrightarrow> errorMessage (loadFromFile parse (Some f) st) = ''Invalid build JSON schema''"
    by (simp add: loadFromFile_def bindE_def r messageOr_def)
  show ?thesis using r 1 2 3 by (simp only: simp_thms)
qed

theorem validateBuild_offending_step_rejected_witness:
  "validateBuild (Obj [(''name'', Str ''Opener''), (''race'', Str ''Zerg''),
                       (''steps'', Arr [Obj [(''time'', Str ''0:18''), (''supply'', Num (Fin 14)),
                                             (''action'', Str ''Pool'')],
                                        Obj [(''time'', Num (Fin 18))]])]) = Inr False"
proof -
  let ?xs = "[Obj [(''time'', Str ''0:18''), (''supply'', Num (Fin 14)), (''action'', Str ''Pool'')],
              Obj [(''time'', Num (Fin 18))]]"
  let ?raw = "Obj [(''name'', Str ''Opener''), (''race'', Str ''Zerg''), (''steps'', Arr ?xs)]"
  have g: "getProp ?raw ''steps'' = Inr (Arr ?xs)" by simp
  have o: "firstOffending ?xs = Some 1" by code_simp
  show ?thesis using validateBuild_offending_step_rejected[OF g o] by (simp only: simp_thms)
qed

text \<open>
  C8, as the specification words it, fails. Two documents whose first offending steps are
  at index 0 and at index 1 are rejected with the same result, and loading either leaves
  the same state with the same message: the failure does not tell the index.
\<close>

theorem validateBuild_step_index_counterexample:
  "firstOffending [Obj [], Obj [(''time'', Str ''0:18''), (''supply'', Num (Fin 14)),
                                (''action'', Str ''Pool'')]] = Some 0
   \<and> firstOffending [Obj [(''time'', Str ''0:18''), (''supply'', Num (Fin 14)),
                           (''action'', Str ''Pool'')], Obj []] = Some 1
   \<and> validateBuild (Obj [(''name'', Str ''Opener''), (''race'', Str ''Zerg''),
        (''steps'', Arr [Obj [], Obj [(''time'', Str ''0:18''), (''supply'', Num (Fin 14)),
                                      (''action'', Str ''Pool'')]])])
     = validateBuild (Obj [(''name'', Str ''Opener''), (''race'', Str ''Zerg''),
        (''steps'', Arr [Obj [(''time'', Str ''0:18''), (''supply'', Num (Fin 14)),
                              (''action'', Str ''Pool'')], Obj []])])
   \<and> loadLocalBuild ''opener'' (Inr \<lparr>ok = True, json = Inr
        (Obj [(''name'', Str ''Opener''), (''race'', Str ''Zerg''),
          (''steps'', Arr [Obj [], Obj [(''time'', Str ''0:18''), (''supply'', Num (Fin 14)),
                                        (''action'', Str ''Pool'')]])])\<rparr>) (initialState None)
     = loadLocalBuild ''opener'' (Inr \<lparr>ok = True, json = Inr
        (Obj [(''name'', Str ''Opener''), (''race'', Str ''Zerg''),
          (''steps'', Arr [Obj [(''time'', Str ''0:18''), (''supply'', Num (Fin 14)),
                                (''action'', Str ''Pool'')], Obj []])])\<rparr>) (initialState None)"
  by code_simp

section \<open>The display sequence\<close>

lemma slice_lastTwo: "slice (- 2) xs = lastTwo xs"
proof -
  have "nat (max (int (length xs) + - 2) 0) = length xs - 2" by simp
  then show ?thesis by (simp add: slice_def lastTwo_def rev_take Let_def)
qed

lemma num_lt_not_ge: "num_lt a b \<Longrightarrow> \<not> num_ge a b"
  by (cases a; cases b) (auto simp: num_ge_def)

lemma length_lastTwo: "length (lastTwo xs) \<le> 2"
  by (simp add: lastTwo_def)

lemma snd_visibleSteps:
  "snd (visibleSteps audio mute es t) =
     lastTwo (filter (isDone t) es) @ filter (\<lambda>s. num_lt t (end' s)) es"
proof -
  have "isDone t = (\<lambda>s. num_ge t (end' s))" by (rule ext) (simp add: isDone_def)
  then show ?thesis by (simp add: visibleSteps_def Let_def slice_lastTwo)
qed

lemma enrichedSteps_empty:
  "getProp doc ''steps'' = Inr (Arr []) \<Longrightarrow> enrichedSteps doc = Inr []"
  by (simp add: enrichedSteps_def bindE_def)

text \<open>
  C1. For every list of enriched steps and every elapsed value, the display sequence is the
  last two (fewer if there are fewer) of the steps whose end the clock has reached, in their
  order, followed by the steps whose end is still ahead, in their order. A document with
  no steps has no enriched steps, and then the display sequence is empty.
\<close>

theorem visibleSteps_display_sequence:
  "snd (visibleSteps audio mute es t) =
     lastTwo (filter (isDone t) es) @ filter (\<lambda>s. num_lt t (end' s)) es
   \<and> (getProp doc ''steps'' = Inr (Arr []) \<longrightarrow> enrichedSteps doc = Inr [])
   \<and> snd (visibleSteps audio mute [] t) = []"
  using snd_visibleSteps[of audio mute es t] snd_visibleSteps[of audio mute "[]" t]
    enrichedSteps_empty[of doc]
  by (simp add: lastTwo_def)

theorem visibleSteps_display_sequence_witness:
  "enrichedSteps (Obj [(''name'', Str ''Opener''), (''race'', Str ''Zerg''), (''steps'', Arr [])])
     = Inr []
   \<and> snd (visibleSteps True False [] (Fin 7)) = []
   \<and> map start (snd (visibleSteps True False
        [\<lparr>step = Null, start = Fin 18, end' = Fin 38\<rparr>, \<lparr>step = Null, start = Fin 38, end' = Fin 65\<rparr>,
         \<lparr>step = Null, start = Fin 65, end' = Fin 70\<rparr>, \<lparr>step = Null, start = Fin 70, end' = Fin 80\<rparr>,
         \<lparr>step = Null, start = Fin 80, end' = PInf\<rparr>] (Fin 70)))
     = [Fin 38, Fin 65, Fin 70, Fin 80]"
proof -
  let ?doc = "Obj [(''name'', Str ''Opener''), (''race'', Str ''Zerg''), (''steps'', Arr [])]"
  let ?es = "[\<lparr>step = Null, start = Fin 18, end' = Fin 38\<rparr>, \<lparr>step = Null, start = Fin 38, end' = Fin 65\<rparr>,
         \<lparr>step = Null, start = Fin 65, end' = Fin 70\<rparr>, \<lparr>step = Null, start = Fin 70, end' = Fin 80\<rparr>,
         \<lparr>step = Null, start = Fin 80, end' = PInf\<rparr>]"
  have g: "getProp ?doc ''steps'' = Inr (Arr [])" by simp
  have v: "map start (lastTwo (filter (isDone (Fin 70)) ?es)
                      @ filter (\<lambda>s. num_lt (Fin 70) (end' s)) ?es)
           = [Fin 38, Fin 65, Fin 70, Fin 80]"
    by (simp add: lastTwo_def isDone_def num_ge_def)
  have a: "snd (visibleSteps True False ?es (Fin 70)) =
     lastTwo (filter (isDone (Fin 70)) ?es) @ filter (\<lambda>s. num_lt (Fin 70) (end' s)) ?es"
    using visibleSteps_display_sequence[of True False ?es "Fin 70" ?doc] by (rule conjunct1)
  have b: "enrichedSteps ?doc = Inr []"
    using visibleSteps_display_sequence[of True False ?es "Fin 70" ?doc] g by blast
  have c: "snd (visibleSteps True False [] (Fin 7)) = []"
    using visibleSteps_display_sequence[of True False "[]" "Fin 7" ?doc] by blast
  show ?thesis using b c v unfolding a by (intro conjI)
qed

text \<open>
  C5. For every list of enriched steps and every elapsed value, at most two entries of the
  display sequence are done, that is, have an end that the clock has reached.
\<close>

theorem visibleSteps_at_most_two_done:
  "length (filter (isDone t) (snd (visibleSteps audio mute es t))) \<le> 2"
proof -
  have "filter (isDone t) (filter (\<lambda>s. num_lt t (end' s)) es) = []"
    by (simp add: filter_empty_conv isDone_def num_lt_not_ge)
  moreover have "length (filter (isDone t) (lastTwo (filter (isDone t) es))) \<le> 2"
    using length_filter_le[of "isDone t" "lastTwo (filter (isDone t) es)"]
      length_lastTwo[of "filter (isDone t) es"] by (rule order_trans)
  ultimately show ?thesis by (simp add: snd_visibleSteps)
qed

theorem visibleSteps_at_most_two_done_witness:
  "length (filter (isDone (Fin 9999)) (snd (visibleSteps True False
        [\<lparr>step = Null, start = Fin 18, end' = Fin 38\<rparr>, \<lparr>step = Null, start = Fin 38, end' = Fin 65\<rparr>,
         \<lparr>step = Null, start = Fin 65, end' = Fin 70\<rparr>, \<lparr>step = Null, start = Fin 70, end' = PInf\<rparr>]
        (Fin 9999)))) \<le> 2"
  by (rule visibleSteps_at_most_two_done)

section \<open>The windows\<close>

lemma mapE_Inr:
  "mapE f xs = Inr ys \<Longrightarrow> length ys = length xs \<and> (\<forall>i<length xs. f (xs ! i) = Inr (ys ! i))"
proof (induction xs arbitrary: ys)
  case Nil
  then show ?case by simp
next
  case (Cons x xs)
  from Cons.prems obtain y ys' where
    y: "f x = Inr y" and ys': "mapE f xs = Inr ys'" and e: "ys = y # ys'"
    by (auto simp: bindE_def split: sum.splits)
  from Cons.IH[OF ys'] have
    l: "length ys' = length xs" and p: "\<forall>i<length xs. f (xs ! i) = Inr (ys' ! i)"
    by simp_all
  show ?case
  proof (intro conjI allI impI)
    show "length ys = length (x # xs)" using l e by simp
  next
    fix i assume "i < length (x # xs)"
    then show "f ((x # xs) ! i) = Inr (ys ! i)" using y p e by (cases i) simp_all
  qed
qed

lemma mapE_total: "(\<forall>x\<in>set xs. \<exists>y. f x = Inr y) \<Longrightarrow> \<exists>ys. mapE f xs = Inr ys"
proof (induction xs)
  case Nil
  then show ?case by simp
next
  case (Cons x xs)
  then obtain y ys where "f x = Inr y" "mapE f xs = Inr ys" by auto
  then show ?case by (simp add: bindE_def)
qed

lemma isBuildStep_time:
  assumes "isBuildStep x"
  shows "\<exists>t. getProp x ''time'' = Inr (Str t)"
proof (cases x)
  case (Obj kvs)
  then have "isText (field x ''time'')" using assms by (simp add: isBuildStep_def)
  then obtain t where "field x ''time'' = Str t" by (cases "field x ''time''") simp_all
  then show ?thesis using Obj by (simp add: field_def)
next
  case (Arr ys)
  then show ?thesis using assms by (simp add: isBuildStep_def field_def)
qed (use assms in \<open>simp_all add: isBuildStep_def\<close>)

lemma time_parses:
  assumes "isBuildStep x"
  shows "\<exists>n. bindE (getProp x ''time'') parseTimeSafe = Inr n"
proof -
  obtain t where "getProp x ''time'' = Inr (Str t)" using isBuildStep_time[OF assms] by blast
  then show ?thesis by (simp add: bindE_def)
qed

lemma enrichStep_total:
  assumes "list_all isBuildStep xs" and "i < length xs"
  shows "\<exists>e. enrichStep xs (xs ! i, i) = Inr e"
proof -
  have "isBuildStep (xs ! i)" using assms by (simp add: list_all_length)
  then obtain n where n: "bindE (getProp (xs ! i) ''time'') parseTimeSafe = Inr n"
    using time_parses by blast
  show ?thesis
  proof (cases "i + 1 < length xs")
    case True
    then have "isBuildStep (xs ! (i + 1))" using assms(1) by (simp add: list_all_length)
    then obtain m where "bindE (getProp (xs ! (i + 1)) ''time'') parseTimeSafe = Inr m"
      using time_parses by blast
    then show ?thesis using n True by (simp add: enrichStep_def bindE_def)
  next
    case False
    then show ?thesis using n by (simp add: enrichStep_def bindE_def)
  qed
qed

lemma enrichStep_Inr:
  assumes "enrichStep xs (x, i) = Inr e" and "i < length xs"
  shows "step e = x \<and> Inr (start e) = bindE (getProp x ''time'') parseTimeSafe
         \<and> (if i + 1 < length xs
            then Inr (end' e) = bindE (getProp (xs ! (i + 1)) ''time'') parseTimeSafe
            else end' e = PInf)"
proof -
  have c: "(int i < int (length xs) - 1) = (i + 1 < length xs)" by auto
  show ?thesis using assms(1) unfolding enrichStep_def c
    by (auto simp: bindE_def split: sum.splits if_splits)
qed

text \<open>
  C3. For every document that \<open>validateBuild\<close> accepts, with steps \<open>xs\<close>, \<open>enrichedSteps\<close>
  gives one enriched step for each step; at every index \<open>i\<close> it keeps the step, its \<open>start\<close>
  is \<open>parseTimeSafe\<close> of the step's \<open>time\<close>, and its \<open>end\<close> is \<open>parseTimeSafe\<close> of the next
  step's \<open>time\<close> when \<open>i\<close> is not the last index, and \<open>Infinity\<close> when it is.
\<close>

theorem enrichedSteps_windows:
  assumes "validateBuild doc = Inr True" and "getProp doc ''steps'' = Inr (Arr xs)"
  shows "\<exists>es. enrichedSteps doc = Inr es \<and> length es = length xs
     \<and> (\<forall>i<length xs.
          step (es ! i) = xs ! i
          \<and> Inr (start (es ! i)) = bindE (getProp (xs ! i) ''time'') parseTimeSafe
          \<and> (if i + 1 < length xs
             then Inr (end' (es ! i)) = bindE (getProp (xs ! (i + 1)) ''time'') parseTimeSafe
             else end' (es ! i) = PInf))"
proof -
  have "isBuildDocument doc" using assms(1) by (simp add: validateBuild_spec)
  then have all: "list_all isBuildStep xs"
    using steps_read[OF assms(2)] by (simp add: isBuildDocument_def)
  let ?ixs = "zip xs [0..<length xs]"
  have "\<forall>p\<in>set ?ixs. \<exists>e. enrichStep xs p = Inr e"
  proof
    fix p assume "p \<in> set ?ixs"
    then obtain i where "i < length xs" "p = (xs ! i, i)"
      by (auto simp: set_zip)
    then show "\<exists>e. enrichStep xs p = Inr e" using enrichStep_total[OF all] by simp
  qed
  then obtain es where es: "mapE (enrichStep xs) ?ixs = Inr es"
    using mapE_total by blast
  have run: "enrichedSteps doc = Inr es"
    using assms(2) es by (simp add: enrichedSteps_def bindE_def)
  from mapE_Inr[OF es] have
    l: "length es = length xs" and
    p: "\<forall>i<length xs. enrichStep xs (xs ! i, i) = Inr (es ! i)"
    by simp_all
  have "\<forall>i<length xs.
          step (es ! i) = xs ! i
          \<and> Inr (start (es ! i)) = bindE (getProp (xs ! i) ''time'') parseTimeSafe
          \<and> (if i + 1 < length xs
             then Inr (end' (es ! i)) = bindE (getProp (xs ! (i + 1)) ''time'') parseTimeSafe
             else end' (es ! i) = PInf)"
  proof (intro allI impI)
    fix i assume i: "i < length xs"
    then have "enrichStep xs (xs ! i, i) = Inr (es ! i)" using p by simp
    then show "step (es ! i) = xs ! i
          \<and> Inr (start (es ! i)) = bindE (getProp (xs ! i) ''time'') parseTimeSafe
          \<and> (if i + 1 < length xs
             then Inr (end' (es ! i)) = bindE (getProp (xs ! (i + 1)) ''time'') parseTimeSafe
             else end' (es ! i) = PInf)"
      using i by (rule enrichStep_Inr)
  qed
  then show ?thesis using run l by blast
qed

theorem enrichedSteps_windows_witness:
  "validateBuild DEFAULT_BUILD = Inr True
   \<and> (\<exists>es. enrichedSteps DEFAULT_BUILD = Inr es \<and> length es = 5
          \<and> Inr (start (es ! 3)) = parseTimeSafe (Str ''0:12'')
          \<and> Inr (end' (es ! 3)) = parseTimeSafe (Str ''0:015'')
          \<and> end' (es ! 4) = PInf)"
proof -
  let ?xs = "[Obj [(''supply'', Num (Fin 14)), (''time'', Str ''0:02''), (''action'', Str ''Supply Depot'')],
         Obj [(''supply'', Num (Fin 16)), (''time'', Str ''0:06''), (''action'', Str ''Barracks'')],
         Obj [(''supply'', Num (Fin 19)), (''time'', Str ''0:08''), (''action'', Str ''Refinery'')],
         Obj [(''supply'', Num (Fin 19)), (''time'', Str ''0:12''), (''action'', Str ''Orbital Command'')],
         Obj [(''supply'', Num (Fin 20)), (''time'', Str ''0:015''),
              (''action'', Str ''Command Center (Expand)'')]]"
  have v: "validateBuild DEFAULT_BUILD = Inr True" by code_simp
  have g: "getProp DEFAULT_BUILD ''steps'' = Inr (Arr ?xs)" by (simp add: DEFAULT_BUILD_def)
  from enrichedSteps_windows[OF v g] obtain es where
    r: "enrichedSteps DEFAULT_BUILD = Inr es" and l: "length es = length ?xs" and
    p: "\<forall>i<length ?xs.
          step (es ! i) = ?xs ! i
          \<and> Inr (start (es ! i)) = bindE (getProp (?xs ! i) ''time'') parseTimeSafe
          \<and> (if i + 1 < length ?xs
             then Inr (end' (es ! i)) = bindE (getProp (?xs ! (i + 1)) ''time'') parseTimeSafe
             else end' (es ! i) = PInf)"
    by blast
  have 3: "Inr (start (es ! 3)) = parseTimeSafe (Str ''0:12'')
           \<and> Inr (end' (es ! 3)) = parseTimeSafe (Str ''0:015'')"
    using p[rule_format, of 3] by (simp add: bindE_def)
  have 4: "end' (es ! 4) = PInf"
    using p[rule_format, of 4] by simp
  show ?thesis using v r l 3 4 by auto
qed

section \<open>Loading\<close>

lemma messageOr_nonempty: "fallback \<noteq> [] \<Longrightarrow> messageOr err fallback \<noteq> []"
  by (simp add: messageOr_def)

lemma not_accepted: "validateBuild j \<noteq> Inr True \<Longrightarrow> validateBuild j = Inr False"
  by (simp add: validateBuild_spec)

lemma loadLocalBuild_fails:
  assumes "fetchFails fetched"
  shows "keptWithError st (loadLocalBuild b fetched st)"
proof (cases fetched)
  case (Inl e)
  then show ?thesis
    by (simp add: loadLocalBuild_def keptWithError_def bindE_def messageOr_nonempty)
next
  case (Inr res)
  show ?thesis
  proof (cases "ok res")
    case False
    then show ?thesis using Inr
      by (simp add: loadLocalBuild_def keptWithError_def bindE_def messageOr_def)
  next
    case True
    show ?thesis
    proof (cases "json res")
      case (Inl e)
      then show ?thesis using Inr True
        by (simp add: loadLocalBuild_def keptWithError_def bindE_def messageOr_nonempty)
    next
      case j: (Inr j)
      then have "validateBuild j = Inr False"
        using assms Inr True by (simp add: fetchFails_def not_accepted)
      then show ?thesis using Inr True j
        by (simp add: loadLocalBuild_def keptWithError_def bindE_def messageOr_def)
    qed
  qed
qed

lemma loadFromLink_fails:
  assumes "fetchFails fetched"
  shows "keptWithError st (loadFromLink fetched st)"
proof (cases fetched)
  case (Inl e)
  then show ?thesis
    by (simp add: loadFromLink_def keptWithError_def bindE_def messageOr_nonempty)
next
  case (Inr res)
  show ?thesis
  proof (cases "ok res")
    case False
    then show ?thesis using Inr
      by (simp add: loadFromLink_def keptWithError_def bindE_def messageOr_def)
  next
    case True
    show ?thesis
    proof (cases "json res")
      case (Inl e)
      then show ?thesis using Inr True
        by (simp add: loadFromLink_def keptWithError_def bindE_def messageOr_nonempty)
    next
      case j: (Inr j)
      then have "validateBuild j = Inr False"
        using assms Inr True by (simp add: fetchFails_def not_accepted)
      then show ?thesis using Inr True j
        by (simp add: loadFromLink_def keptWithError_def bindE_def messageOr_def)
    qed
  qed
qed

lemma loadFromFile_fails:
  assumes "fileFails parse given"
  shows "keptWithError st (loadFromFile parse given st)"
proof (cases given)
  case None
  then show ?thesis
    by (simp add: loadFromFile_def keptWithError_def messageOr_def)
next
  case (Some f)
  show ?thesis
  proof (cases "endsWith (toLowerCase (fname f)) ''.json''")
    case False
    then show ?thesis using Some
      by (simp add: loadFromFile_def keptWithError_def messageOr_def)
  next
    case True
    show ?thesis
    proof (cases "contents f")
      case (Inl e)
      then show ?thesis using Some True
        by (simp add: loadFromFile_def keptWithError_def bindE_def messageOr_nonempty)
    next
      case body: (Inr body)
      show ?thesis
      proof (cases "parse body")
        case (Inl e)
        then show ?thesis using Some True body
          by (simp add: loadFromFile_def keptWithError_def bindE_def messageOr_nonempty)
      next
        case j: (Inr j)
        then have "validateBuild j = Inr False"
          using assms Some True body by (simp add: fileFails_def not_accepted)
        then show ?thesis using Some True body j
          by (simp add: loadFromFile_def keptWithError_def bindE_def messageOr_def)
      qed
    qed
  qed
qed

text \<open>
  C7. A load that fails, from the registry, from a link or from a file, with a fetch
  error, a parse error or a validation error, leaves the active document, the clock and
  the running flag as they were, and sets a non-empty error message. So an invalid document
  loaded after a valid one leaves the valid one active.
\<close>

theorem failed_load_keeps_state:
  "(fetchFails fetched \<longrightarrow>
      keptWithError st (loadLocalBuild b fetched st) \<and> keptWithError st (loadFromLink fetched st))
   \<and> (fileFails parse given \<longrightarrow> keptWithError st (loadFromFile parse given st))"
  using loadLocalBuild_fails loadFromLink_fails loadFromFile_fails by blast

theorem failed_load_keeps_state_witness:
  "build (loadLocalBuild ''broken'' (Inr \<lparr>ok = True, json = Inr (Obj [(''name'', Str ''Broken'')])\<rparr>)
            (loadLocalBuild ''opener'' (Inr \<lparr>ok = True, json = Inr DEFAULT_BUILD\<rparr>)
               (initialState (Some (Obj [])))))
     = DEFAULT_BUILD
   \<and> errorMessage (loadFromFile (\<lambda>txt. Inl (SyntaxError ''Unexpected end of JSON input''))
                     (Some \<lparr>fname = ''Opener.JSON'', contents = Inr ''{''\<rparr>) (initialState None))
     \<noteq> []"
proof -
  let ?bad = "Inr \<lparr>ok = True, json = Inr (Obj [(''name'', Str ''Broken'')])\<rparr>"
  let ?st = "loadLocalBuild ''opener'' (Inr \<lparr>ok = True, json = Inr DEFAULT_BUILD\<rparr>)
               (initialState (Some (Obj [])))"
  let ?parse = "\<lambda>txt :: string. (Inl (SyntaxError ''Unexpected end of JSON input'') :: error + jsval)"
  let ?file = "Some \<lparr>fname = ''Opener.JSON'', contents = Inr ''{''\<rparr>"
  have f: "fetchFails ?bad" by code_simp
  have g: "fileFails ?parse ?file" by code_simp
  have v: "validateBuild DEFAULT_BUILD = Inr True" by code_simp
  have b: "build ?st = DEFAULT_BUILD"
    by (simp add: loadLocalBuild_def bindE_def v)
  have 1: "keptWithError ?st (loadLocalBuild ''broken'' ?bad ?st)"
    using failed_load_keeps_state[of ?bad ?st "''broken''" ?parse ?file] f by blast
  have 2: "keptWithError (initialState None) (loadFromFile ?parse ?file (initialState None))"
    using failed_load_keeps_state[of ?bad "initialState None" "''broken''" ?parse ?file] g by blast
  show ?thesis using 1 2 b by (simp add: keptWithError_def)
qed

section \<open>The sound\<close>

lemma num_eq_ge: "num_eq a b \<Longrightarrow> num_ge a b"
  by (simp add: num_ge_def)

lemma num_eq_same: "num_eq a b \<Longrightarrow> a = b"
  by (cases a; cases b) simp_all

lemma num_ge_antisym: "num_ge a b \<Longrightarrow> num_ge b a \<Longrightarrow> num_eq a b"
  by (cases a; cases b) (auto simp: num_ge_def)

lemma last_done_at_boundary:
  assumes "endsAscend es" and "s \<in> set es" and "num_eq t (end' s)"
  shows "filter (\<lambda>x. num_ge t (end' x)) es \<noteq> []
         \<and> num_eq t (end' (last (filter (\<lambda>x. num_ge t (end' x)) es)))"
  using assms
proof (induction es)
  case Nil
  then show ?case by simp
next
  case (Cons x xs)
  let ?P = "\<lambda>x. num_ge t (end' x)"
  have asc: "endsAscend xs" and above: "\<forall>y\<in>set xs. num_ge (end' y) (end' x)"
    using Cons.prems(1) by (simp_all add: endsAscend_def)
  show ?case
  proof (cases "filter ?P xs = []")
    case False
    have "s \<in> set xs \<or> s = x" using Cons.prems(2) by auto
    then have "num_eq t (end' (last (filter ?P xs)))"
    proof
      assume "s \<in> set xs"
      then show ?thesis using Cons.IH[OF asc _ Cons.prems(3)] by simp
    next
      assume sx: "s = x"
      have "last (filter ?P xs) \<in> set (filter ?P xs)" using False by (rule last_in_set)
      then have d: "last (filter ?P xs) \<in> set xs" and r: "num_ge t (end' (last (filter ?P xs)))"
        by simp_all
      have "end' x = t" using Cons.prems(3) sx num_eq_same by metis
      then have "num_ge (end' (last (filter ?P xs))) t" using above d by auto
      then show ?thesis using r by (simp add: num_ge_antisym)
    qed
    then show ?thesis using False by simp
  next
    case True
    then have "s \<notin> set xs"
      using Cons.prems(3) num_eq_ge by (auto simp: filter_empty_conv)
    then have "s = x" using Cons.prems(2) by simp
    then show ?thesis using True Cons.prems(3) by (simp add: num_eq_ge)
  qed
qed

text \<open>
  C6, as the code has it. An evaluation of the projection plays the sound only when the
  audio element is mounted, the sound is not muted, and the elapsed value equals the end of
  some step; so it never plays for an end that the clock has already passed, such as one
  in the past when a document is loaded. When the ends of the steps never decrease along the
  list, every evaluation with the sound mounted and not muted at which the elapsed value
  equals the end of a step plays the sound.
\<close>

theorem sound_plays_at_step_end:
  "(fst (visibleSteps audio mute es t) \<longrightarrow>
      audio \<and> \<not> mute \<and> (\<exists>s\<in>set es. num_eq t (end' s)))
   \<and> (audio \<and> \<not> mute \<and> endsAscend es \<and> s \<in> set es \<and> num_eq t (end' s) \<longrightarrow>
        fst (visibleSteps audio mute es t))"
proof (intro conjI impI)
  let ?done = "filter (\<lambda>x. num_ge t (end' x)) es"
  assume p: "fst (visibleSteps audio mute es t)"
  then have ne: "?done \<noteq> []" and eq: "num_eq t (end' (last ?done))"
    by (simp_all add: visibleSteps_def Let_def)
  have "last ?done \<in> set ?done" using ne by (rule last_in_set)
  then have "last ?done \<in> set es" by simp
  then show "\<exists>s\<in>set es. num_eq t (end' s)" using eq by blast
  show "audio" "\<not> mute" using p by (simp_all add: visibleSteps_def Let_def)
next
  assume "audio \<and> \<not> mute \<and> endsAscend es \<and> s \<in> set es \<and> num_eq t (end' s)"
  then show "fst (visibleSteps audio mute es t)"
    using last_done_at_boundary[of es s t] by (simp add: visibleSteps_def Let_def)
qed

theorem sound_plays_at_step_end_witness:
  "fst (visibleSteps True False
         [\<lparr>step = Null, start = Fin 18, end' = Fin 38\<rparr>, \<lparr>step = Null, start = Fin 38, end' = Fin 65\<rparr>,
          \<lparr>step = Null, start = Fin 65, end' = PInf\<rparr>] (Fin 38))
   \<and> \<not> fst (visibleSteps True False
         [\<lparr>step = Null, start = Fin 18, end' = Fin 38\<rparr>, \<lparr>step = Null, start = Fin 38, end' = Fin 65\<rparr>,
          \<lparr>step = Null, start = Fin 65, end' = PInf\<rparr>] (Fin 39))"
proof -
  let ?s = "\<lparr>step = Null, start = Fin 18, end' = Fin 38\<rparr>"
  let ?es = "[?s, \<lparr>step = Null, start = Fin 38, end' = Fin 65\<rparr>,
          \<lparr>step = Null, start = Fin 65, end' = PInf\<rparr>]"
  have h: "True \<and> \<not> False \<and> endsAscend ?es \<and> ?s \<in> set ?es \<and> num_eq (Fin 38) (end' ?s)"
    by (simp add: endsAscend_def num_ge_def)
  have n: "\<not> (\<exists>s\<in>set ?es. num_eq (Fin 39) (end' s))" by simp
  have 1: "fst (visibleSteps True False ?es (Fin 38))"
    using sound_plays_at_step_end[of True False ?es "Fin 38" ?s] h by blast
  have 2: "\<not> fst (visibleSteps True False ?es (Fin 39))"
    using sound_plays_at_step_end[of True False ?es "Fin 39" ?s] n by blast
  show ?thesis using 1 2 by (rule conjI)
qed

text \<open>
  C6, as the specification words it, fails. With steps at 0:01 and 0:02 the first step ends
  at 2; the sound plays when the clock reaches 2 and plays again, the clock still at 2,
  when the sound is muted and unmuted. With steps at 0:02, 0:03, 0:01 and 0:04 the first
  step ends at 3, and the clock passes 3 with no sound: the sound plays at 1 and at 4 only.
\<close>

theorem sound_once_per_step_counterexample:
  "run [Start, Tick, Tick, ToggleMute, ToggleMute]
     (initialState (Some (Obj [(''name'', Str ''Opener''), (''race'', Str ''Zerg''),
        (''steps'', Arr [Obj [(''time'', Str ''0:01''), (''supply'', Num (Fin 13)),
                              (''action'', Str ''Overlord'')],
                         Obj [(''time'', Str ''0:02''), (''supply'', Num (Fin 16)),
                              (''action'', Str ''Hatchery'')]])])))
     = [2, 2]
   \<and> run [Start, Tick, Tick, Tick, Tick]
     (initialState (Some (Obj [(''name'', Str ''Opener''), (''race'', Str ''Zerg''),
        (''steps'', Arr [Obj [(''time'', Str ''0:02''), (''supply'', Num (Fin 13)),
                              (''action'', Str ''Overlord'')],
                         Obj [(''time'', Str ''0:03''), (''supply'', Num (Fin 16)),
                              (''action'', Str ''Hatchery'')],
                         Obj [(''time'', Str ''0:01''), (''supply'', Num (Fin 17)),
                              (''action'', Str ''Pool'')],
                         Obj [(''time'', Str ''0:04''), (''supply'', Num (Fin 19)),
                              (''action'', Str ''Gas'')]])])))
     = [1, 4]"
  by code_simp

end
